theory Spec2Isabelle
  imports Main
begin

section \<open>Data model (types.ts)\<close>

text \<open>
  The enums of \<^verbatim>\<open>types.ts\<close> are datatypes; \<open>disasterLabel\<close> gives the string value
  of a \<open>DisasterType\<close> member, which is what a template literal prints.
\<close>

datatype DisasterType =
  EARTHQUAKE | FLOOD | WILDFIRE | HURRICANE | TSUNAMI | VOLCANO | STORM | GENERAL

fun disasterLabel :: "DisasterType \<Rightarrow> string" where
  "disasterLabel EARTHQUAKE = ''Earthquake''"
| "disasterLabel FLOOD = ''Flood''"
| "disasterLabel WILDFIRE = ''Wildfire''"
| "disasterLabel HURRICANE = ''Hurricane''"
| "disasterLabel TSUNAMI = ''Tsunami''"
| "disasterLabel VOLCANO = ''Volcano''"
| "disasterLabel STORM = ''Severe Storm''"
| "disasterLabel GENERAL = ''General Emergency''"

datatype AgentStatus =
  IDLE | ANALYZING | PLANNING | EXECUTING | PAUSED | AWAITING_APPROVAL | COMPLETED

text \<open>The union type \<^verbatim>\<open>'pending' | 'in-progress' | 'completed'\<close> of \<open>RecoveryTask.status\<close>.\<close>

datatype TaskStatus = Pending | InProgress | Completed

record RecoveryTask =
  task_id :: string
  title :: string
  description :: string
  task_status :: TaskStatus
  assignedAgent :: string
  estimatedTime :: string

section \<open>Component state (RecoveryOps.tsx)\<close>

text \<open>
  The \<open>useState\<close> cells of the component, in the order of the source, and one more
  field: \<open>timer\<close> says whether the timeout set by the execution-loop effect is pending.
  The model records that a timeout is pending, not how much of its three seconds is left.
\<close>

record state =
  tasks :: "RecoveryTask list"
  status :: AgentStatus
  activeTaskIndex :: int
  logs :: "string list"
  simLocation :: string
  simType :: DisasterType
  isListening :: bool
  isProcessingVoice :: bool
  timer :: bool

definition initialState :: state where
  "initialState =
     \<lparr> tasks = [], status = IDLE, activeTaskIndex = - 1, logs = [],
       simLocation = ''Coastal District A'', simType = FLOOD,
       isListening = False, isProcessingVoice = False, timer = False \<rparr>"

text \<open>
  An exception of the JavaScript runtime. Reading a property of \<^verbatim>\<open>undefined\<close>, which is
  what an array read out of range gives, throws \<open>TypeError\<close>. A handler that throws
  keeps the state updates it had requested before the throw: \<open>Raised e s\<close> carries
  them.
\<close>

datatype error = TypeError

datatype completion = Done state | Raised error state

fun stateOf :: "completion \<Rightarrow> state" where
  "stateOf (Done s) = s"
| "stateOf (Raised e s) = s"

section \<open>Printing a number in a template literal\<close>

definition digitChar :: "nat \<Rightarrow> char" where
  "digitChar d = ''0123456789'' ! d"

fun showNat :: "nat \<Rightarrow> string" where
  "showNat n = (if n < 10 then [digitChar n] else showNat (n div 10) @ [digitChar (n mod 10)])"

declare showNat.simps [simp del]

section \<open>The external services (geminiService.ts)\<close>

text \<open>
  The answer of the remote model is an input of the embedding. \<open>PlannerThrew\<close> stands for
  every way the \<^verbatim>\<open>try\<close> block of \<open>generateRecoveryPlan\<close> can throw (the request fails,
  the text is not JSON, the JSON is not an array); \<open>PlannerJson ts\<close> is a parsed array.
  The items of the array carry no status of their own: the field is overwritten.
\<close>

datatype plannerResponse = PlannerThrew | PlannerJson "RecoveryTask list"

definition defaultPlan :: "RecoveryTask list" where
  "defaultPlan =
     [ \<lparr> task_id = ''1'', title = ''Assess Damage'',
         description = ''Drone survey of affected area'', task_status = Pending,
         assignedAgent = ''Recon Unit'', estimatedTime = ''2 hours'' \<rparr>,
       \<lparr> task_id = ''2'', title = ''Establish Comms'',
         description = ''Set up emergency mesh network'', task_status = Pending,
         assignedAgent = ''Comms Team'', estimatedTime = ''1 hour'' \<rparr>,
       \<lparr> task_id = ''3'', title = ''Medical Triage'',
         description = ''Set up field hospital at safe zone'', task_status = Pending,
         assignedAgent = ''Medical Unit'', estimatedTime = ''3 hours'' \<rparr> ]"

fun generateRecoveryPlan :: "plannerResponse \<Rightarrow> RecoveryTask list" where
  "generateRecoveryPlan (PlannerJson ts) = map (\<lambda>t. t\<lparr>task_status := Pending\<rparr>) ts"
| "generateRecoveryPlan PlannerThrew = defaultPlan"

text \<open>
  \<open>InterpreterThrew\<close> stands for every way the \<^verbatim>\<open>try\<close> block of \<open>processVoiceCommand\<close>
  can throw. \<open>InterpreterJson u r\<close> is a parsed object; \<open>u\<close> and \<open>r\<close> are \<open>None\<close> when the
  field is absent. An empty array is truthy in JavaScript, an empty string is falsy.
\<close>

datatype interpreterResponse =
  InterpreterThrew | InterpreterJson "RecoveryTask list option" "string option"

fun processVoiceCommand ::
  "interpreterResponse \<Rightarrow> RecoveryTask list \<Rightarrow> RecoveryTask list \<times> string" where
  "processVoiceCommand (InterpreterJson u r) currentTasks =
     ((case u of Some ts \<Rightarrow> ts | None \<Rightarrow> currentTasks),
      (case r of Some txt \<Rightarrow> (if txt = [] then ''Command acknowledged.'' else txt)
               | None \<Rightarrow> ''Command acknowledged.''))"
| "processVoiceCommand InterpreterThrew currentTasks =
     (currentTasks, ''Signal interference. Command not processed.'')"

section \<open>The handlers of the component\<close>

text \<open>
  \<open>handleGeneratePlan\<close> is asynchronous: \<open>handleGeneratePlan_begin\<close> is the part before
  the \<^verbatim>\<open>await\<close>, \<open>handleGeneratePlan_resume\<close> the part after it.
\<close>

definition handleGeneratePlan_begin :: "state \<Rightarrow> state" where
  "handleGeneratePlan_begin s =
     s\<lparr> status := PLANNING,
        logs := logs s @
          [ ''[AI] Analyzing impact for '' @ disasterLabel (simType s) @ '' in '' @
              simLocation s @ ''...'',
            ''[AI] Generating resource allocation strategy...'' ] \<rparr>"

definition handleGeneratePlan_resume :: "plannerResponse \<Rightarrow> state \<Rightarrow> state" where
  "handleGeneratePlan_resume resp s =
     (let plan = generateRecoveryPlan resp in
      s\<lparr> tasks := plan,
         logs := logs s @
           [ ''[AI] Plan generated with '' @ showNat (length plan) @
               '' operational phases.'' ],
         status := IDLE,
         activeTaskIndex := - 1 \<rparr>)"

text \<open>
  \<open>toggleExecution\<close>. The copy \<^verbatim>\<open>[...tasks]\<close> shares its task objects with the old
  array, and the new array is what \<open>setTasks\<close> stores, so the state after the handler is
  the list with one element updated.
\<close>

definition toggleExecution :: "state \<Rightarrow> state" where
  "toggleExecution s =
     (if status s = IDLE \<or> status s = PAUSED then
        (if length (tasks s) = 0 then s
         else if activeTaskIndex s = - 1 then
           (let newTasks = (tasks s)[0 := (tasks s ! 0)\<lparr>task_status := InProgress\<rparr>] in
            s\<lparr> status := EXECUTING,
               activeTaskIndex := 0,
               tasks := newTasks,
               logs := logs s @
                 [ ''[SYSTEM] Operation Commenced.'',
                   ''[STARTED] '' @ title (newTasks ! 0) @ '' - Agent: '' @
                     assignedAgent (newTasks ! 0) ] \<rparr>)
         else
           s\<lparr> status := EXECUTING,
              logs := logs s @ [''[SYSTEM] Operation Resumed.''] \<rparr>)
      else if status s = EXECUTING then
        s\<lparr> status := PAUSED,
           logs := logs s @ [''[SYSTEM] Operation Paused by Commander.''] \<rparr>
      else s)"

text \<open>
  \<open>handleApproveTask\<close>. Its only guard is \<^verbatim>\<open>activeTaskIndex === -1\<close>. With any other
  index outside the array, \<^verbatim>\<open>newTasks[activeTaskIndex].status = ...\<close> throws before the
  first state update.
\<close>

definition handleApproveTask :: "state \<Rightarrow> completion" where
  "handleApproveTask s =
     (if activeTaskIndex s = - 1 then Done s
      else if activeTaskIndex s < 0 \<or> int (length (tasks s)) \<le> activeTaskIndex s
      then Raised TypeError s
      else
        (let i = nat (activeTaskIndex s);
             newTasks = (tasks s)[i := (tasks s ! i)\<lparr>task_status := Completed\<rparr>];
             logs1 = logs s @
               [''[COMPLETED] '' @ title (newTasks ! i) @ '' confirmed by Commander.''];
             nextIndex = activeTaskIndex s + 1
         in if nextIndex < int (length newTasks) then
              (let j = nat nextIndex;
                   newTasks2 = newTasks[j := (newTasks ! j)\<lparr>task_status := InProgress\<rparr>]
               in Done (s\<lparr> tasks := newTasks2,
                             activeTaskIndex := nextIndex,
                             status := EXECUTING,
                             logs := logs1 @
                               [ ''[STARTED] '' @ title (newTasks2 ! j) @ '' - Agent: '' @
                                   assignedAgent (newTasks2 ! j) ] \<rparr>))
            else
              Done (s\<lparr> tasks := newTasks,
                        status := COMPLETED,
                        logs := logs1 @
                          [''[SYSTEM] All recovery operations completed successfully.''] \<rparr>)))"

text \<open>The \<open>onClick\<close> of the "Pause / Review" button of the approval dialog.\<close>

definition pauseForReview :: "state \<Rightarrow> state" where
  "pauseForReview s = s\<lparr>status := PAUSED\<rparr>"

text \<open>
  The callback of the timeout. It closes over \<open>tasks\<close> and \<open>activeTaskIndex\<close> of the
  render that scheduled it; the effect schedules a new timeout whenever either changes,
  so they are the current ones. \<open>setStatus\<close> comes first: with an index below zero the
  read of \<^verbatim>\<open>tasks[activeTaskIndex].title\<close> throws after it.
\<close>

definition timerCallback :: "state \<Rightarrow> completion" where
  \<open>timerCallback s =
     (let s1 = s\<lparr>status := AWAITING_APPROVAL\<rparr> in
      if 0 \<le> activeTaskIndex s \<and> activeTaskIndex s < int (length (tasks s)) then
        Done (s1\<lparr> logs := logs s @
                [ ''[SYSTEM] Task "'' @ title (tasks s ! nat (activeTaskIndex s)) @
                    ''" pending Commander approval.'' ] \<rparr>)
      else Raised TypeError s1)\<close>

text \<open>
  \<open>handleVoiceCommand\<close> updates no state cell: it alerts, or it creates a recognition
  object and starts it. The handlers it installs run later, as events of their own.
  \<open>supported\<close> says whether the browser has a speech recognition constructor.
\<close>

datatype voiceAction = AlertNotSupported | RecognitionStarted

definition handleVoiceCommand :: "bool \<Rightarrow> state \<Rightarrow> state \<times> voiceAction" where
  "handleVoiceCommand supported s =
     (if \<not> supported then (s, AlertNotSupported) else (s, RecognitionStarted))"

definition recognition_onstart :: "state \<Rightarrow> state" where
  "recognition_onstart s =
     s\<lparr> isListening := True,
        logs := logs s @ [''[COMMS] Listening for voice command...''] \<rparr>"

definition recognition_onend :: "state \<Rightarrow> state" where
  "recognition_onend s = s\<lparr>isListening := False\<rparr>"

text \<open>
  \<open>recognition.onresult\<close> is asynchronous: \<open>_begin\<close> is the part before the \<^verbatim>\<open>await\<close>,
  \<open>_resume\<close> the part after it. \<open>currentTasks\<close> is the \<open>tasks\<close> the handler closed over,
  the array handed to \<open>processVoiceCommand\<close>.
\<close>

definition recognition_onresult_begin :: "string \<Rightarrow> state \<Rightarrow> state" where
  \<open>recognition_onresult_begin transcript s =
     s\<lparr> logs := logs s @
          [ ''[USER VOICE] "'' @ transcript @ ''"'', ''[AI] Analyzing intent...'' ],
        isProcessingVoice := True \<rparr>\<close>

definition recognition_onresult_resume ::
  "RecoveryTask list \<Rightarrow> interpreterResponse \<Rightarrow> state \<Rightarrow> state" where
  "recognition_onresult_resume currentTasks resp s =
     (case processVoiceCommand resp currentTasks of
        (updatedTasks, reply) \<Rightarrow>
          s\<lparr> tasks := updatedTasks,
             logs := logs s @ [''[AI REASONING] '' @ reply],
             isProcessingVoice := False \<rparr>)"

definition recognition_onerror :: "string \<Rightarrow> state \<Rightarrow> state" where
  "recognition_onerror err s =
     s\<lparr> isListening := False,
        logs := logs s @ [''[COMMS] Voice signal lost. Error: '' @ err] \<rparr>"

section \<open>The execution-loop effect\<close>

text \<open>
  The effect depends on \<open>status\<close>, \<open>activeTaskIndex\<close> and \<open>tasks\<close>. When a render changes
  one of them, the cleanup clears the pending timeout and the effect sets a new one if
  its condition holds. When none changes, the pending timeout stays as it is.
\<close>

definition timerCondition :: "state \<Rightarrow> bool" where
  "timerCondition s \<longleftrightarrow>
     status s = EXECUTING \<and> activeTaskIndex s < int (length (tasks s))"

definition executionLoopEffect :: "state \<Rightarrow> state \<Rightarrow> state" where
  "executionLoopEffect prev next =
     (if (status next, activeTaskIndex next, tasks next) =
         (status prev, activeTaskIndex prev, tasks prev)
      then next
      else next\<lparr>timer := timerCondition next\<rparr>)"

section \<open>What the rendered controls allow\<close>

text \<open>
  The \<^verbatim>\<open>disabled\<close> attributes of the buttons, and the condition under which the
  component puts the approval dialog, with its two buttons, into its output.
\<close>

definition generatePlanDisabled :: "state \<Rightarrow> bool" where
  "generatePlanDisabled s \<longleftrightarrow> status s \<noteq> IDLE \<and> status s \<noteq> COMPLETED"

definition toggleDisabled :: "state \<Rightarrow> bool" where
  "toggleDisabled s \<longleftrightarrow>
     length (tasks s) = 0 \<or> status s = COMPLETED \<or> status s = AWAITING_APPROVAL"

definition voiceDisabled :: "state \<Rightarrow> bool" where
  "voiceDisabled s \<longleftrightarrow> isListening s \<or> isProcessingVoice s"

definition approvalDialogCondition :: "state \<Rightarrow> bool" where
  "approvalDialogCondition s \<longleftrightarrow>
     status s = AWAITING_APPROVAL \<and> activeTaskIndex s \<noteq> - 1"

text \<open>
  The dialog reads \<^verbatim>\<open>tasks[activeTaskIndex].assignedAgent\<close>. When its condition holds
  and the active index is not an index of the queue, that read throws during the
  render; no error boundary is above the component, so it is unmounted. A state whose
  render throws is therefore the last state of a component that is gone: nothing is
  rendered in it and no handler changes it any more.
\<close>

definition renderThrows :: "state \<Rightarrow> bool" where
  "renderThrows s \<longleftrightarrow>
     approvalDialogCondition s \<and>
     (activeTaskIndex s < 0 \<or> int (length (tasks s)) \<le> activeTaskIndex s)"

definition approvalDialogShown :: "state \<Rightarrow> bool" where
  "approvalDialogShown s \<longleftrightarrow> approvalDialogCondition s \<and> \<not> renderThrows s"

section \<open>Events\<close>

text \<open>
  Everything that can run a handler: a click on a rendered control, the timeout, a
  promise that settles, an event of the speech recognition object, an edit of one of the
  two inputs. \<open>dispatch\<close> runs the handler and then the effect; \<open>step\<close> is \<open>dispatch\<close> on
  a mounted component and nothing on an unmounted one, where state updates are dropped.
  A click on a control that is disabled or not rendered runs nothing. The handler after an \<^verbatim>\<open>await\<close> of
  \<open>handleGeneratePlan\<close> runs once per call, and the status is \<open>PLANNING\<close> from the call
  to that moment. The events of the recognition object and the answer of the interpreter
  are accepted here at any moment, and \<open>InterpreterReturns\<close> carries the queue its handler
  closed over: the states reachable here include all those of the component. Which
  recognition object an event belongs to and which queue a handler holds is added
  further down, in the worlds.
\<close>

datatype event =
    ClickGeneratePlan
  | PlannerReturns plannerResponse
  | ClickToggle
  | TimerFires
  | ClickPauseReview
  | ClickApprove
  | ClickVoice bool
  | RecognitionStart
  | RecognitionEnd
  | RecognitionError string
  | RecognitionResult string
  | InterpreterReturns "RecoveryTask list" interpreterResponse
  | ChangeLocation string
  | ChangeType DisasterType

fun dispatch :: "event \<Rightarrow> state \<Rightarrow> state" where
  "dispatch ClickGeneratePlan s =
     (if generatePlanDisabled s then s
      else executionLoopEffect s (handleGeneratePlan_begin s))"
| "dispatch (PlannerReturns resp) s =
     (if status s = PLANNING then executionLoopEffect s (handleGeneratePlan_resume resp s)
      else s)"
| "dispatch ClickToggle s =
     (if toggleDisabled s then s else executionLoopEffect s (toggleExecution s))"
| "dispatch TimerFires s =
     (if timer s then executionLoopEffect s (stateOf (timerCallback (s\<lparr>timer := False\<rparr>)))
      else s)"
| "dispatch ClickPauseReview s =
     (if approvalDialogShown s then executionLoopEffect s (pauseForReview s) else s)"
| "dispatch ClickApprove s =
     (if approvalDialogShown s then executionLoopEffect s (stateOf (handleApproveTask s))
      else s)"
| "dispatch (ClickVoice supported) s =
     (if voiceDisabled s then s
      else executionLoopEffect s (fst (handleVoiceCommand supported s)))"
| "dispatch RecognitionStart s = executionLoopEffect s (recognition_onstart s)"
| "dispatch RecognitionEnd s = executionLoopEffect s (recognition_onend s)"
| "dispatch (RecognitionError err) s = executionLoopEffect s (recognition_onerror err s)"
| "dispatch (RecognitionResult transcript) s =
     executionLoopEffect s (recognition_onresult_begin transcript s)"
| "dispatch (InterpreterReturns currentTasks resp) s =
     executionLoopEffect s (recognition_onresult_resume currentTasks resp s)"
| "dispatch (ChangeLocation l) s = executionLoopEffect s (s\<lparr>simLocation := l\<rparr>)"
| "dispatch (ChangeType t) s = executionLoopEffect s (s\<lparr>simType := t\<rparr>)"

definition step :: "event \<Rightarrow> state \<Rightarrow> state" where
  "step e s = (if renderThrows s then s else dispatch e s)"

fun run :: "event list \<Rightarrow> state \<Rightarrow> state" where
  "run [] s = s"
| "run (e # es) s = run es (step e s)"

inductive reachable :: "state \<Rightarrow> bool" where
  reachable_init: "reachable initialState"
| reachable_step: "reachable s \<Longrightarrow> reachable (step e s)"

section \<open>Notions used by the properties\<close>

text \<open>
  \<^verbatim>\<open>String.prototype.includes\<close>, which the log view uses to tell the \<^verbatim>\<open>[AI]\<close> and
  \<^verbatim>\<open>[SYSTEM]\<close> entries from the others.
\<close>

fun startsWith :: "string \<Rightarrow> string \<Rightarrow> bool" where
  "startsWith text [] = True"
| "startsWith [] (p # ps) = False"
| "startsWith (c # cs) (p # ps) = (c = p \<and> startsWith cs ps)"

fun str_includes :: "string \<Rightarrow> string \<Rightarrow> bool" where
  "str_includes [] pat = (pat = [])"
| "str_includes (c # cs) pat = (startsWith (c # cs) pat \<or> str_includes cs pat)"

text \<open>
  One round of the execution loop: the timeout fires, then the commander confirms.
  \<open>midRun ts k s\<close> describes the state at the start of round \<open>k\<close> of a run over the queue
  \<open>ts\<close>: the tasks before \<open>k\<close> are those of \<open>ts\<close> with status completed, task \<open>k\<close> is that of
  \<open>ts\<close> in progress, the tasks after \<open>k\<close> are those of \<open>ts\<close> untouched, and the timeout is
  pending.
\<close>

definition approvalRound :: "state \<Rightarrow> state" where
  "approvalRound s = step ClickApprove (step TimerFires s)"

definition midRun :: "RecoveryTask list \<Rightarrow> nat \<Rightarrow> state \<Rightarrow> bool" where
  "midRun ts k s \<longleftrightarrow>
     status s = EXECUTING \<and> timer s \<and> activeTaskIndex s = int k \<and> k < length ts \<and>
     length (tasks s) = length ts \<and>
     (\<forall>i<length ts.
        tasks s ! i =
          (if i < k then (ts ! i)\<lparr>task_status := Completed\<rparr>
           else if i = k then (ts ! i)\<lparr>task_status := InProgress\<rparr>
           else ts ! i))"

text \<open>
  What holds in every reachable state: a timeout is pending exactly when the condition of
  the effect holds; the active index is \<open>-1\<close> while the status is \<open>IDLE\<close> and at least
  \<open>0\<close> while a plan is executing, paused, awaiting approval or completed. \<open>ANALYZING\<close>
  is never set by this component.
\<close>

definition wellFormed :: "state \<Rightarrow> bool" where
  "wellFormed s \<longleftrightarrow>
     timer s = timerCondition s \<and>
     (case status s of
        IDLE \<Rightarrow> activeTaskIndex s = - 1
      | ANALYZING \<Rightarrow> False
      | PLANNING \<Rightarrow> - 1 \<le> activeTaskIndex s
      | _ \<Rightarrow> 0 \<le> activeTaskIndex s)"

text \<open>
  The number of tasks in progress, and the queues in which no task is in progress at an
  index other than \<open>a\<close>.
\<close>

definition inProgressCount :: "RecoveryTask list \<Rightarrow> nat" where
  "inProgressCount ts = length (filter (\<lambda>t. task_status t = InProgress) ts)"

fun inProgressOnlyAt :: "int \<Rightarrow> RecoveryTask list \<Rightarrow> bool" where
  "inProgressOnlyAt a [] = True"
| "inProgressOnlyAt a (t # ts) =
     ((task_status t \<noteq> InProgress \<or> a = 0) \<and> inProgressOnlyAt (a - 1) ts)"

definition anchoredState :: "state \<Rightarrow> bool" where
  "anchoredState s \<longleftrightarrow> inProgressOnlyAt (activeTaskIndex s) (tasks s)"

text \<open>
  The runs in which every queue stored by a command has its tasks in progress, if any,
  at the active index of the moment.
\<close>

definition mergeKeepsAnchor :: "state \<Rightarrow> event \<Rightarrow> bool" where
  "mergeKeepsAnchor s e =
     (case e of
        InterpreterReturns currentTasks resp \<Rightarrow>
          inProgressOnlyAt (activeTaskIndex s) (fst (processVoiceCommand resp currentTasks))
      | _ \<Rightarrow> True)"

inductive reachableAnchored :: "state \<Rightarrow> bool" where
  anchored_init: "reachableAnchored initialState"
| anchored_step:
    "reachableAnchored s \<Longrightarrow> mergeKeepsAnchor s e \<Longrightarrow> reachableAnchored (step e s)"

fun allowedRun :: "event list \<Rightarrow> state \<Rightarrow> bool" where
  "allowedRun [] s = True"
| "allowedRun (e # es) s = (mergeKeepsAnchor s e \<and> allowedRun es (step e s))"

section \<open>The component in the browser\<close>

text \<open>
  The cells of the component hold values; some of what the component does depends on
  which array, which timeout and which recognition object is meant. A \<open>world\<close> is the
  state of the component together with these identities.

  \<^item> \<open>tasksArray\<close> identifies the array in the \<open>tasks\<close> cell. The effect compares arrays
    by identity, and a handler that changes a task does so on a copy of the array.

  \<^item> \<open>tasksObjects\<close> identifies the task objects in that array. A copy made with
    \<^verbatim>\<open>[...tasks]\<close> holds the same objects, so a status written through the copy is
    seen through every array of the same objects; a plan and a parsed answer of the
    interpreter are new objects. \<open>shelf\<close> keeps the tasks of the objects that are no
    longer in the cell, as they were left.

  \<^item> \<open>timeoutId\<close> identifies the timeout that is pending when \<open>timer\<close> holds.

  \<^item> \<open>recognitions\<close> are the recognition objects created by \<open>handleVoiceCommand\<close>. The
    handlers of each close over the \<open>tasks\<close> of the render in which the control was
    clicked: \<open>heldArray\<close> and \<open>heldObjects\<close>. \<open>calls\<close> are the calls of
    \<open>processVoiceCommand\<close> that have not returned, each with the array it was given.

  \<^item> \<open>fresh\<close> is the next unused identity.
\<close>

datatype stage = Starting | Listening | Resulted | Errored | Ended

record recognition =
  heldArray :: nat
  heldObjects :: nat
  stage :: stage

record world =
  ui :: state
  tasksArray :: nat
  tasksObjects :: nat
  shelf :: "nat \<Rightarrow> RecoveryTask list"
  timeoutId :: nat
  fresh :: nat
  recognitions :: "recognition list"
  calls :: "(nat \<times> nat) list"

definition initialWorld :: world where
  "initialWorld =
     \<lparr> ui = initialState, tasksArray = 0, tasksObjects = 0, shelf = (\<lambda>g. []),
       timeoutId = 0, fresh = 1, recognitions = [], calls = [] \<rparr>"

text \<open>The tasks seen now through an array that a handler holds.\<close>

definition heldTasks :: "world \<Rightarrow> nat \<times> nat \<Rightarrow> RecoveryTask list" where
  "heldTasks w h = (if snd h = tasksObjects w then tasks (ui w) else shelf w (snd h))"

text \<open>
  What happens in the browser. A click, an answer of the planner and an edit are as
  before. The timeout, the events of a recognition object and the answer to a call name
  the timeout, the object and the call they belong to.
\<close>

datatype occurrence =
    GeneratePlanClick
  | PlannerAnswer plannerResponse
  | ToggleClick
  | PauseReviewClick
  | ApproveClick
  | VoiceClick bool
  | LocationEdit string
  | TypeEdit DisasterType
  | TimeoutElapsed nat
  | OnStart nat
  | OnResult nat string
  | OnError nat string
  | OnEnd nat
  | InterpreterAnswer nat interpreterResponse

text \<open>
  The handler an occurrence runs, if any. A timeout that was cleared does not fire. A
  recognition object reports its start once, then at most one result (it is not
  continuous) or an error, and its end last; this is all that is assumed of the browser.
  A call answers once, and its handler goes on with the array it holds.
\<close>

fun handlerOf :: "world \<Rightarrow> occurrence \<Rightarrow> event option" where
  "handlerOf w GeneratePlanClick = Some ClickGeneratePlan"
| "handlerOf w (PlannerAnswer resp) = Some (PlannerReturns resp)"
| "handlerOf w ToggleClick = Some ClickToggle"
| "handlerOf w PauseReviewClick = Some ClickPauseReview"
| "handlerOf w ApproveClick = Some ClickApprove"
| "handlerOf w (VoiceClick supported) = Some (ClickVoice supported)"
| "handlerOf w (LocationEdit l) = Some (ChangeLocation l)"
| "handlerOf w (TypeEdit t) = Some (ChangeType t)"
| "handlerOf w (TimeoutElapsed k) =
     (if timer (ui w) \<and> timeoutId w = k then Some TimerFires else None)"
| "handlerOf w (OnStart i) =
     (if i < length (recognitions w) \<and> stage (recognitions w ! i) = Starting
      then Some RecognitionStart else None)"
| "handlerOf w (OnResult i transcript) =
     (if i < length (recognitions w) \<and> stage (recognitions w ! i) = Listening
      then Some (RecognitionResult transcript) else None)"
| "handlerOf w (OnError i err) =
     (if i < length (recognitions w) \<and>
         (stage (recognitions w ! i) = Starting \<or> stage (recognitions w ! i) = Listening)
      then Some (RecognitionError err) else None)"
| "handlerOf w (OnEnd i) =
     (if i < length (recognitions w) \<and> stage (recognitions w ! i) \<noteq> Ended
      then Some RecognitionEnd else None)"
| "handlerOf w (InterpreterAnswer j resp) =
     (if j < length (calls w)
      then Some (InterpreterReturns (heldTasks w (calls w ! j)) resp) else None)"

text \<open>
  The array a handler passes to \<open>setTasks\<close>: none, a copy of the array in the cell (the
  start branch of \<open>toggleExecution\<close>, and \<open>handleApproveTask\<close> past its guard), an array
  of new objects (a plan, a parsed \<open>updatedTasks\<close>), or the array the handler holds
  (\<open>currentTasks\<close>, when the interpreter failed or gave no \<open>updatedTasks\<close>).
\<close>

datatype stored = Untouched | Copy | NewObjects | Held nat nat

fun storedArray :: "world \<Rightarrow> occurrence \<Rightarrow> stored" where
  "storedArray w ToggleClick =
     (if \<not> toggleDisabled (ui w) \<and> (status (ui w) = IDLE \<or> status (ui w) = PAUSED) \<and>
         activeTaskIndex (ui w) = - 1
      then Copy else Untouched)"
| "storedArray w ApproveClick = (if approvalDialogShown (ui w) then Copy else Untouched)"
| "storedArray w (PlannerAnswer resp) =
     (if status (ui w) = PLANNING then NewObjects else Untouched)"
| "storedArray w (InterpreterAnswer j resp) =
     (if j < length (calls w) then
        (case resp of
           InterpreterJson (Some ts) reply \<Rightarrow> NewObjects
         | _ \<Rightarrow> Held (fst (calls w ! j)) (snd (calls w ! j)))
      else Untouched)"
| "storedArray w oc = Untouched"

fun putArray :: "stored \<Rightarrow> world \<Rightarrow> world" where
  "putArray Untouched w = w"
| "putArray Copy w = w\<lparr>tasksArray := fresh w, fresh := fresh w + 1\<rparr>"
| "putArray NewObjects w =
     w\<lparr> tasksArray := fresh w, tasksObjects := fresh w,
        shelf := (shelf w)(tasksObjects w := tasks (ui w)),
        fresh := fresh w + 1 \<rparr>"
| "putArray (Held a g) w =
     w\<lparr> tasksArray := a, tasksObjects := g,
        shelf := (if g = tasksObjects w then shelf w
                  else (shelf w)(tasksObjects w := tasks (ui w))) \<rparr>"

text \<open>The recognition objects and the calls after an occurrence that ran its handler.\<close>

fun track :: "occurrence \<Rightarrow> world \<Rightarrow> world" where
  "track (VoiceClick supported) w =
     (if \<not> voiceDisabled (ui w) \<and> supported then
        w\<lparr>recognitions := recognitions w @
            [\<lparr>heldArray = tasksArray w, heldObjects = tasksObjects w, stage = Starting\<rparr>]\<rparr>
      else w)"
| "track (OnStart i) w =
     w\<lparr>recognitions := (recognitions w)[i := (recognitions w ! i)\<lparr>stage := Listening\<rparr>]\<rparr>"
| "track (OnResult i transcript) w =
     w\<lparr> recognitions := (recognitions w)[i := (recognitions w ! i)\<lparr>stage := Resulted\<rparr>],
        calls := calls w @
          [(heldArray (recognitions w ! i), heldObjects (recognitions w ! i))] \<rparr>"
| "track (OnError i err) w =
     w\<lparr>recognitions := (recognitions w)[i := (recognitions w ! i)\<lparr>stage := Errored\<rparr>]\<rparr>"
| "track (OnEnd i) w =
     w\<lparr>recognitions := (recognitions w)[i := (recognitions w ! i)\<lparr>stage := Ended\<rparr>]\<rparr>"
| "track (InterpreterAnswer j resp) w =
     w\<lparr>calls := take j (calls w) @ drop (Suc j) (calls w)\<rparr>"
| "track oc w = w"

text \<open>
  The effect runs again when the status, the active index or the array in the cell has
  changed (a queue with other tasks in it is another array); the timeout it then sets,
  if its condition holds, is a new one.
\<close>

definition reschedule :: "world \<Rightarrow> world \<Rightarrow> world" where
  "reschedule w w' =
     (if timer (ui w') \<and>
         (status (ui w') \<noteq> status (ui w) \<or>
          activeTaskIndex (ui w') \<noteq> activeTaskIndex (ui w) \<or>
          tasksArray w' \<noteq> tasksArray w \<or> tasks (ui w') \<noteq> tasks (ui w))
      then w'\<lparr>timeoutId := fresh w', fresh := fresh w' + 1\<rparr>
      else w')"

definition wstep :: "occurrence \<Rightarrow> world \<Rightarrow> world" where
  "wstep oc w =
     (if renderThrows (ui w) then w
      else case handlerOf w oc of
             None \<Rightarrow> w
           | Some e \<Rightarrow>
               reschedule w ((track oc (putArray (storedArray w oc) w))\<lparr>ui := step e (ui w)\<rparr>))"

fun wrun :: "occurrence list \<Rightarrow> world \<Rightarrow> world" where
  "wrun [] w = w"
| "wrun (oc # ocs) w = wrun ocs (wstep oc w)"

inductive wreachable :: "world \<Rightarrow> bool" where
  wreachable_init: "wreachable initialWorld"
| wreachable_step: "wreachable w \<Longrightarrow> wreachable (wstep oc w)"

text \<open>
  Timeout \<open>k\<close> is gone for good: it is not the pending one, and every timeout set from
  now on has a later identity.
\<close>

definition cleared :: "nat \<Rightarrow> world \<Rightarrow> bool" where
  "cleared k w \<longleftrightarrow> k < fresh w \<and> \<not> (timer (ui w) \<and> timeoutId w = k)"

section \<open>Example queues and runs\<close>

definition taskA :: RecoveryTask where
  "taskA = \<lparr> task_id = ''a'', title = ''A'', description = ''first'', task_status = Pending,
             assignedAgent = ''Alpha'', estimatedTime = ''1 hour'' \<rparr>"

definition taskB :: RecoveryTask where
  "taskB = \<lparr> task_id = ''b'', title = ''B'', description = ''second'', task_status = Pending,
             assignedAgent = ''Bravo'', estimatedTime = ''2 hours'' \<rparr>"

definition taskC :: RecoveryTask where
  "taskC = \<lparr> task_id = ''c'', title = ''C'', description = ''third'', task_status = Pending,
             assignedAgent = ''Charlie'', estimatedTime = ''3 hours'' \<rparr>"

text \<open>The queue of the spec's scenario: two pending tasks, nothing started.\<close>

definition twoTaskState :: state where
  "twoTaskState = initialState\<lparr>tasks := [taskA, taskB]\<rparr>"

text \<open>A plan of two tasks arrives and is started.\<close>

definition startedRun :: "event list" where
  "startedRun =
     [ClickGeneratePlan, PlannerReturns (PlannerJson [taskA, taskB]), ClickToggle]"

text \<open>The planner fails.\<close>

definition failedPlanRun :: "event list" where
  "failedPlanRun = [ClickGeneratePlan, PlannerReturns PlannerThrew]"

text \<open>
  The plan is started; a spoken command follows, and the interpreter answers with both
  tasks in progress.
\<close>

definition doubleStartRun :: "event list" where
  "doubleStartRun = startedRun @
     [ ClickVoice True, RecognitionStart, RecognitionResult ''start task B now'',
       RecognitionEnd,
       InterpreterReturns [taskA\<lparr>task_status := InProgress\<rparr>, taskB]
         (InterpreterJson
            (Some [taskA\<lparr>task_status := InProgress\<rparr>, taskB\<lparr>task_status := InProgress\<rparr>])
            (Some ''Task B started.'')) ]"

text \<open>
  The plan is started; a spoken command follows, and the interpreter answers with a
  third task appended.
\<close>

definition appendRun :: "event list" where
  "appendRun = startedRun @
     [ ClickVoice True, RecognitionStart, RecognitionResult ''add a third task'',
       RecognitionEnd,
       InterpreterReturns [taskA\<lparr>task_status := InProgress\<rparr>, taskB]
         (InterpreterJson (Some [taskA\<lparr>task_status := InProgress\<rparr>, taskB, taskC])
            (Some ''Task C added.'')) ]"

text \<open>
  The first task is confirmed, the second is in progress; a spoken command follows, and
  the interpreter answers with the second task removed.
\<close>

definition shrinkRun :: "event list" where
  "shrinkRun = startedRun @
     [ TimerFires, ClickApprove,
       ClickVoice True, RecognitionStart, RecognitionResult ''cancel task B'',
       RecognitionEnd,
       InterpreterReturns
         [taskA\<lparr>task_status := Completed\<rparr>, taskB\<lparr>task_status := InProgress\<rparr>]
         (InterpreterJson (Some [taskA\<lparr>task_status := Completed\<rparr>])
            (Some ''Task B cancelled.'')) ]"

text \<open>The first task is confirmed and the second is in progress; then its timeout fires.\<close>

definition secondActiveRun :: "event list" where
  "secondActiveRun = startedRun @ [TimerFires, ClickApprove]"

definition secondAwaitingRun :: "event list" where
  "secondAwaitingRun = secondActiveRun @ [TimerFires]"

text \<open>The same plan of two tasks, started, as occurrences in the browser.\<close>

definition startedOccurrences :: "occurrence list" where
  "startedOccurrences =
     [GeneratePlanClick, PlannerAnswer (PlannerJson [taskA, taskB]), ToggleClick]"

text \<open>
  While the plan executes, a command is spoken and its call of the interpreter is out.
\<close>

definition commandOutRun :: "occurrence list" where
  "commandOutRun = startedOccurrences @
     [VoiceClick True, OnStart 0, OnResult 0 ''report status'', OnEnd 0]"



text \<open>
  The voice control is clicked twice before the first recognition reports its start;
  both recognitions start and deliver a result.
\<close>

definition doubleClickRun :: "occurrence list" where
  "doubleClickRun =
     [ VoiceClick True, VoiceClick True, OnStart 0, OnStart 1,
       OnResult 0 ''add task A'', OnResult 1 ''add task B'' ]"

section \<open>Evaluation and reachability\<close>

lemmas handler_defs =
  handleGeneratePlan_begin_def handleGeneratePlan_resume_def toggleExecution_def
  handleApproveTask_def pauseForReview_def timerCallback_def handleVoiceCommand_def
  recognition_onstart_def recognition_onend_def recognition_onresult_begin_def
  recognition_onresult_resume_def recognition_onerror_def
  executionLoopEffect_def timerCondition_def
  generatePlanDisabled_def toggleDisabled_def voiceDisabled_def approvalDialogShown_def
  approvalDialogCondition_def renderThrows_def step_def
  initialState_def defaultPlan_def Let_def

lemma showNat_small:
  "showNat (Suc (Suc 0)) = ''2''" "showNat (Suc (Suc (Suc 0))) = ''3''"
  by (simp_all add: showNat.simps digitChar_def)

lemma run_append: "run (xs @ ys) s = run ys (run xs s)"
  by (induction xs arbitrary: s) simp_all

lemma reachable_run: "reachable s \<Longrightarrow> reachable (run es s)"
  by (induction es arbitrary: s) (auto intro: reachable_step)

lemma reachableAnchored_run:
  "reachableAnchored s \<Longrightarrow> allowedRun es s \<Longrightarrow> reachableAnchored (run es s)"
  by (induction es arbitrary: s) (auto intro: anchored_step)

lemma startedRun_state:
  "run startedRun initialState =
     \<lparr> tasks = [taskA\<lparr>task_status := InProgress\<rparr>, taskB], status = EXECUTING,
       activeTaskIndex = 0,
       logs = [ ''[AI] Analyzing impact for Flood in Coastal District A...'',
                ''[AI] Generating resource allocation strategy...'',
                ''[AI] Plan generated with 2 operational phases.'',
                ''[SYSTEM] Operation Commenced.'',
                ''[STARTED] A - Agent: Alpha'' ],
       simLocation = ''Coastal District A'', simType = FLOOD,
       isListening = False, isProcessingVoice = False, timer = True \<rparr>"
  by (simp add: startedRun_def handler_defs taskA_def taskB_def showNat_small)

section \<open>Running a plan to the end\<close>

lemma timer_step:
  assumes "midRun ts k s"
  shows "step TimerFires s =
     s\<lparr> status := AWAITING_APPROVAL, timer := False,
        logs := logs s @
          [''[SYSTEM] Task '' @ [CHR 0x22] @ title (tasks s ! k) @ [CHR 0x22] @
             '' pending Commander approval.''] \<rparr>"
  using assms
  by (simp add: midRun_def step_def renderThrows_def approvalDialogCondition_def
      timerCallback_def executionLoopEffect_def timerCondition_def)

lemma approve_step:
  assumes "midRun ts k s"
  shows "approvalRound s =
     executionLoopEffect (step TimerFires s) (stateOf (handleApproveTask (step TimerFires s)))"
    and "status (step TimerFires s) = AWAITING_APPROVAL"
    and "activeTaskIndex (step TimerFires s) = int k"
    and "tasks (step TimerFires s) = tasks s"
proof -
  let ?a = "step TimerFires s"
  show a: "status ?a = AWAITING_APPROVAL" "activeTaskIndex ?a = int k" "tasks ?a = tasks s"
    unfolding timer_step[OF assms] using assms by (simp_all add: midRun_def)
  have "k < length (tasks s)"
    using assms by (simp add: midRun_def)
  then show "approvalRound s = executionLoopEffect ?a (stateOf (handleApproveTask ?a))"
    using a
    by (simp add: approvalRound_def step_def approvalDialogShown_def
        approvalDialogCondition_def renderThrows_def)
qed

lemma round_mid:
  assumes "midRun ts k s" "Suc k < length ts"
  shows "midRun ts (Suc k) (approvalRound s)"
proof -
  note a = approve_step[OF assms(1)]
  have nth: "nat (int k + 1) = Suc k" by simp
  have len: "length (tasks s) = length ts"
    and old: "\<And>i. i < length ts \<Longrightarrow>
        tasks s ! i =
          (if i < k then (ts ! i)\<lparr>task_status := Completed\<rparr>
           else if i = k then (ts ! i)\<lparr>task_status := InProgress\<rparr>
           else ts ! i)"
    using assms(1) by (simp_all add: midRun_def)
  have t: "tasks (approvalRound s) =
      (tasks s)[k := (tasks s ! k)\<lparr>task_status := Completed\<rparr>,
                Suc k := (tasks s ! Suc k)\<lparr>task_status := InProgress\<rparr>]"
    and rest: "status (approvalRound s) = EXECUTING" "timer (approvalRound s)"
      "activeTaskIndex (approvalRound s) = int (Suc k)"
    unfolding a(1) using a(2-4) assms(2) len
    by (simp_all add: handleApproveTask_def executionLoopEffect_def timerCondition_def
        Let_def nth)
  have "tasks (approvalRound s) ! i =
          (if i < Suc k then (ts ! i)\<lparr>task_status := Completed\<rparr>
           else if i = Suc k then (ts ! i)\<lparr>task_status := InProgress\<rparr>
           else ts ! i)" if "i < length ts" for i
    using that assms(2) len old[of i] old[of k] old[of "Suc k"]
    by (auto simp: t nth_list_update)
  then show ?thesis
    using rest assms(2) len by (simp add: midRun_def t)
qed

lemma round_last:
  assumes "midRun ts k s" "Suc k = length ts"
  shows "status (approvalRound s) = COMPLETED"
    and "tasks (approvalRound s) = map (\<lambda>t. t\<lparr>task_status := Completed\<rparr>) ts"
    and "activeTaskIndex (approvalRound s) = int k"
proof -
  note a = approve_step[OF assms(1)]
  have len: "length (tasks s) = length ts"
    and old: "\<And>i. i < length ts \<Longrightarrow>
        tasks s ! i =
          (if i < k then (ts ! i)\<lparr>task_status := Completed\<rparr>
           else if i = k then (ts ! i)\<lparr>task_status := InProgress\<rparr>
           else ts ! i)"
    using assms(1) by (simp_all add: midRun_def)
  have t: "tasks (approvalRound s) = (tasks s)[k := (tasks s ! k)\<lparr>task_status := Completed\<rparr>]"
    and st: "status (approvalRound s) = COMPLETED"
    and ix: "activeTaskIndex (approvalRound s) = int k"
    unfolding a(1) using a(2-4) assms(2)[symmetric] len
    by (simp_all add: handleApproveTask_def executionLoopEffect_def Let_def)
  show "status (approvalRound s) = COMPLETED" by (rule st)
  show "activeTaskIndex (approvalRound s) = int k" by (rule ix)
  show "tasks (approvalRound s) = map (\<lambda>t. t\<lparr>task_status := Completed\<rparr>) ts"
  proof (rule nth_equalityI)
    show "length (tasks (approvalRound s)) = length (map (\<lambda>t. t\<lparr>task_status := Completed\<rparr>) ts)"
      using len by (simp add: t)
  next
    fix i
    assume "i < length (tasks (approvalRound s))"
    then have i: "i < length ts"
      using len by (simp add: t)
    then have "i < k \<or> i = k"
      using assms(2) by arith
    then show "tasks (approvalRound s) ! i = map (\<lambda>t. t\<lparr>task_status := Completed\<rparr>) ts ! i"
      using i len old[of i] by (auto simp: t nth_list_update)
  qed
qed

lemma rounds_complete:
  assumes "midRun ts k s" "k + Suc m = length ts"
  shows "status ((approvalRound ^^ Suc m) s) = COMPLETED \<and>
         tasks ((approvalRound ^^ Suc m) s) = map (\<lambda>t. t\<lparr>task_status := Completed\<rparr>) ts \<and>
         activeTaskIndex ((approvalRound ^^ Suc m) s) = int (length ts) - 1"
  using assms
proof (induction m arbitrary: k s)
  case 0
  then show ?case using round_last[of ts k s] by simp
next
  case (Suc m)
  have lt: "Suc k < length ts" using Suc.prems(2) by arith
  note nxt = round_mid[OF Suc.prems(1) lt]
  have len: "Suc k + Suc m = length ts"
    using Suc.prems(2) by simp
  have unroll: "(approvalRound ^^ Suc (Suc m)) s = (approvalRound ^^ Suc m) (approvalRound s)"
    using funpow_Suc_right[of "Suc m" approvalRound] by (simp only: o_apply)
  show ?case unfolding unroll by (rule Suc.IH[OF nxt len])
qed

lemma start_mid:
  assumes "tasks s \<noteq> []" "status s = IDLE" "activeTaskIndex s = - 1"
  shows "midRun (tasks s) 0 (step ClickToggle s)"
proof -
  have "tasks (step ClickToggle s) = (tasks s)[0 := (tasks s ! 0)\<lparr>task_status := InProgress\<rparr>]"
    and "status (step ClickToggle s) = EXECUTING" "timer (step ClickToggle s)"
    and "activeTaskIndex (step ClickToggle s) = 0"
    using assms
    by (simp_all add: step_def renderThrows_def approvalDialogCondition_def toggleDisabled_def
        toggleExecution_def executionLoopEffect_def timerCondition_def Let_def)
  then show ?thesis
    using assms(1) by (auto simp: midRun_def nth_list_update)
qed

text \<open>
  C1. From a state with a non-empty queue of pending tasks, status \<open>IDLE\<close> and active
  index \<open>-1\<close>: a click on the start control, then as many rounds (the timeout fires, the
  commander confirms) as the queue has tasks, ends with status \<open>COMPLETED\<close>, and the
  queue is then the queue of the start, task by task, with every status set to
  completed; the active index is that of the last task.
\<close>

theorem start_then_n_approvals_completes:
  assumes "tasks s \<noteq> []"
    and "\<forall>t\<in>set (tasks s). task_status t = Pending"
    and "status s = IDLE"
    and "activeTaskIndex s = - 1"
  shows "status ((approvalRound ^^ length (tasks s)) (step ClickToggle s)) = COMPLETED \<and>
     tasks ((approvalRound ^^ length (tasks s)) (step ClickToggle s))
       = map (\<lambda>t. t\<lparr>task_status := Completed\<rparr>) (tasks s) \<and>
     length (tasks ((approvalRound ^^ length (tasks s)) (step ClickToggle s)))
       = length (tasks s) \<and>
     (\<forall>t\<in>set (tasks ((approvalRound ^^ length (tasks s)) (step ClickToggle s))).
         task_status t = Completed) \<and>
     activeTaskIndex ((approvalRound ^^ length (tasks s)) (step ClickToggle s))
       = int (length (tasks s)) - 1"
proof -
  obtain m where m: "length (tasks s) = Suc m"
    using assms(1) by (cases "tasks s") auto
  note st = start_mid[OF assms(1,3,4)]
  have "0 + Suc m = length (tasks s)"
    using m by simp
  from rounds_complete[OF st this]
  have fin: "status ((approvalRound ^^ Suc m) (step ClickToggle s)) = COMPLETED"
    "tasks ((approvalRound ^^ Suc m) (step ClickToggle s))
       = map (\<lambda>t. t\<lparr>task_status := Completed\<rparr>) (tasks s)"
    "activeTaskIndex ((approvalRound ^^ Suc m) (step ClickToggle s))
       = int (length (tasks s)) - 1"
    by blast+
  have all: "\<forall>t\<in>set (map (\<lambda>t. t\<lparr>task_status := Completed\<rparr>) (tasks s)).
      task_status t = Completed"
    by simp
  show ?thesis
    unfolding m fin(1) fin(2) using fin(3) all m by simp
qed

theorem start_then_n_approvals_completes_witness:
  "tasks twoTaskState \<noteq> [] \<and>
   list_all (\<lambda>t. task_status t = Pending) (tasks twoTaskState) \<and>
   status twoTaskState = IDLE \<and> activeTaskIndex twoTaskState = - 1 \<and>
   status ((approvalRound ^^ length (tasks twoTaskState)) (step ClickToggle twoTaskState))
     = COMPLETED \<and>
   tasks ((approvalRound ^^ length (tasks twoTaskState)) (step ClickToggle twoTaskState))
     = [taskA\<lparr>task_status := Completed\<rparr>, taskB\<lparr>task_status := Completed\<rparr>] \<and>
   activeTaskIndex ((approvalRound ^^ length (tasks twoTaskState))
     (step ClickToggle twoTaskState)) = 1"
proof -
  have h: "tasks twoTaskState \<noteq> []"
    "\<forall>t\<in>set (tasks twoTaskState). task_status t = Pending"
    "status twoTaskState = IDLE" "activeTaskIndex twoTaskState = - 1"
    by (simp_all add: twoTaskState_def initialState_def taskA_def taskB_def)
  have t: "tasks twoTaskState = [taskA, taskB]"
    by (simp add: twoTaskState_def)
  note c = start_then_n_approvals_completes[OF h]
  have 1: "status ((approvalRound ^^ length (tasks twoTaskState))
      (step ClickToggle twoTaskState)) = COMPLETED"
    using c by blast
  have "tasks ((approvalRound ^^ length (tasks twoTaskState)) (step ClickToggle twoTaskState))
      = map (\<lambda>t. t\<lparr>task_status := Completed\<rparr>) (tasks twoTaskState)"
    using c by blast
  also have "\<dots> = [taskA\<lparr>task_status := Completed\<rparr>, taskB\<lparr>task_status := Completed\<rparr>]"
    unfolding t by simp
  finally have 2: "tasks ((approvalRound ^^ length (tasks twoTaskState))
      (step ClickToggle twoTaskState))
      = [taskA\<lparr>task_status := Completed\<rparr>, taskB\<lparr>task_status := Completed\<rparr>]" .
  have "activeTaskIndex ((approvalRound ^^ length (tasks twoTaskState))
      (step ClickToggle twoTaskState)) = int (length (tasks twoTaskState)) - 1"
    using c by blast
  also have "\<dots> = 1"
    unfolding t by simp
  finally have 3: "activeTaskIndex ((approvalRound ^^ length (tasks twoTaskState))
      (step ClickToggle twoTaskState)) = 1" .
  have 0: "list_all (\<lambda>t. task_status t = Pending) (tasks twoTaskState)"
    using h(2) unfolding list_all_iff .
  from h(1) 0 h(3) h(4) 1 2 3 show ?thesis
    by blast
qed

text \<open>
  C10. The start/pause handler does nothing when the status is \<open>PLANNING\<close>,
  \<open>AWAITING_APPROVAL\<close> or \<open>COMPLETED\<close>, or when it is \<open>IDLE\<close> or \<open>PAUSED\<close> and the queue is
  empty; a click on the control then leaves status, queue, active index and log as they
  were.
\<close>

theorem toggle_noop_outside_run:
  assumes "status s = PLANNING \<or> status s = AWAITING_APPROVAL \<or> status s = COMPLETED \<or>
     ((status s = IDLE \<or> status s = PAUSED) \<and> tasks s = [])"
  shows "toggleExecution s = s \<and> step ClickToggle s = s"
  using assms by (auto simp: toggleExecution_def executionLoopEffect_def step_def)

theorem toggle_noop_outside_run_witness:
  "(status initialState = IDLE \<and> tasks initialState = []) \<and>
   toggleExecution initialState = initialState \<and>
   step ClickToggle initialState = initialState"
proof -
  have h: "status initialState = IDLE \<and> tasks initialState = []"
    by (simp add: initialState_def)
  then have "status initialState = PLANNING \<or> status initialState = AWAITING_APPROVAL \<or>
     status initialState = COMPLETED \<or>
     ((status initialState = IDLE \<or> status initialState = PAUSED) \<and>
      tasks initialState = [])"
    by blast
  from toggle_noop_outside_run[OF this] h show ?thesis by blast
qed

section \<open>Invariants of the reachable states\<close>

lemma wellFormed_init: "wellFormed initialState"
  by (simp add: wellFormed_def initialState_def timerCondition_def)

lemma wellFormed_dispatch:
  assumes "wellFormed s"
  shows "wellFormed (dispatch e s)"
proof (cases e)
  case ClickApprove
  show ?thesis
    unfolding ClickApprove using assms
    by (auto simp: wellFormed_def executionLoopEffect_def timerCondition_def
        approvalDialogShown_def approvalDialogCondition_def renderThrows_def
        handleApproveTask_def Let_def split: AgentStatus.splits)
next
  case ClickToggle
  show ?thesis
    unfolding ClickToggle using assms
    by (auto simp: wellFormed_def executionLoopEffect_def timerCondition_def
        toggleDisabled_def toggleExecution_def Let_def split: AgentStatus.splits)
next
  case TimerFires
  show ?thesis
    unfolding TimerFires using assms
    by (auto simp: wellFormed_def executionLoopEffect_def timerCondition_def
        timerCallback_def Let_def split: AgentStatus.splits)
next
  case (InterpreterReturns cur resp)
  show ?thesis
    unfolding InterpreterReturns using assms
    by (cases "processVoiceCommand resp cur")
       (auto simp: wellFormed_def executionLoopEffect_def timerCondition_def
          recognition_onresult_resume_def split: AgentStatus.splits)
next
  case (PlannerReturns resp)
  show ?thesis
    unfolding PlannerReturns using assms
    by (auto simp: wellFormed_def executionLoopEffect_def timerCondition_def
        handleGeneratePlan_resume_def Let_def split: AgentStatus.splits)
qed (use assms in \<open>auto simp: wellFormed_def executionLoopEffect_def timerCondition_def
      generatePlanDisabled_def handleGeneratePlan_begin_def approvalDialogShown_def
      approvalDialogCondition_def renderThrows_def
      pauseForReview_def voiceDisabled_def handleVoiceCommand_def recognition_onstart_def
      recognition_onend_def recognition_onerror_def recognition_onresult_begin_def
      split: AgentStatus.splits\<close>)

lemma wellFormed_step: "wellFormed s \<Longrightarrow> wellFormed (step e s)"
  by (simp add: step_def wellFormed_dispatch)

lemma reachable_wellFormed: "reachable s \<Longrightarrow> wellFormed s"
  by (induction rule: reachable.induct) (auto intro: wellFormed_init wellFormed_step)

text \<open>
  C9. In a reachable state with status \<open>EXECUTING\<close>, a click on the pause control and
  then a click on the resume control leave the queue, and so every task's status, and
  the active index as they were. Between the two clicks only the status and the log
  (and the pending timeout) differ from the state before; after the second click only
  the log differs.
\<close>

theorem pause_resume_frame:
  assumes "reachable s" and "status s = EXECUTING"
  shows "tasks (step ClickToggle s) = tasks s \<and>
         activeTaskIndex (step ClickToggle s) = activeTaskIndex s \<and>
         (step ClickToggle s)\<lparr>status := status s, logs := logs s, timer := timer s\<rparr> = s \<and>
         tasks (step ClickToggle (step ClickToggle s)) = tasks s \<and>
         map task_status (tasks (step ClickToggle (step ClickToggle s))) =
           map task_status (tasks s) \<and>
         activeTaskIndex (step ClickToggle (step ClickToggle s)) = activeTaskIndex s \<and>
         (step ClickToggle (step ClickToggle s))\<lparr>logs := logs s\<rparr> = s"
  using reachable_wellFormed[OF assms(1)] assms(2)
  by (auto simp: wellFormed_def executionLoopEffect_def timerCondition_def
      step_def renderThrows_def approvalDialogCondition_def
      toggleDisabled_def toggleExecution_def Let_def)

theorem pause_resume_frame_witness:
  "reachable (run startedRun initialState) \<and>
   status (run startedRun initialState) = EXECUTING \<and>
   status (step ClickToggle (run startedRun initialState)) = PAUSED \<and>
   status (step ClickToggle (step ClickToggle (run startedRun initialState))) = EXECUTING \<and>
   map task_status (tasks (step ClickToggle (step ClickToggle (run startedRun initialState))))
     = [InProgress, Pending] \<and>
   activeTaskIndex (step ClickToggle (step ClickToggle (run startedRun initialState))) = 0"
proof -
  have r: "reachable (run startedRun initialState)"
    by (rule reachable_run[OF reachable_init])
  have e: "status (run startedRun initialState) = EXECUTING"
    unfolding startedRun_state by simp
  have t: "map task_status (tasks (run startedRun initialState)) = [InProgress, Pending]"
    and a: "activeTaskIndex (run startedRun initialState) = 0"
    unfolding startedRun_state by (simp_all add: taskA_def taskB_def)
  have p: "status (step ClickToggle (run startedRun initialState)) = PAUSED"
    and q: "status (step ClickToggle (step ClickToggle (run startedRun initialState)))
              = EXECUTING"
    unfolding startedRun_state by (simp_all add: handler_defs)
  from pause_resume_frame[OF r e] r e t a p q show ?thesis
    by simp
qed

section \<open>Tasks in progress\<close>

lemma inProgressOnlyAt_nth:
  "inProgressOnlyAt a ts \<longleftrightarrow>
     (\<forall>i<length ts. task_status (ts ! i) = InProgress \<longrightarrow> int i = a)"
proof (induction ts arbitrary: a)
  case Nil
  then show ?case by simp
next
  case (Cons t ts)
  show ?case
  proof
    assume l: "inProgressOnlyAt a (t # ts)"
    show "\<forall>i<length (t # ts). task_status ((t # ts) ! i) = InProgress \<longrightarrow> int i = a"
    proof (intro allI impI)
      fix i
      assume i: "i < length (t # ts)" "task_status ((t # ts) ! i) = InProgress"
      show "int i = a"
      proof (cases i)
        case 0
        then show ?thesis using l i by simp
      next
        case (Suc j)
        then have "int j = a - 1"
          using l i Cons.IH[of "a - 1"] by simp
        then show ?thesis using Suc by simp
      qed
    qed
  next
    assume r: "\<forall>i<length (t # ts). task_status ((t # ts) ! i) = InProgress \<longrightarrow> int i = a"
    have h: "task_status t \<noteq> InProgress \<or> a = 0"
      using r by fastforce
    have "\<forall>j<length ts. task_status (ts ! j) = InProgress \<longrightarrow> int j = a - 1"
    proof (intro allI impI)
      fix j
      assume "j < length ts" "task_status (ts ! j) = InProgress"
      then have "int (Suc j) = a"
        using r by fastforce
      then show "int j = a - 1" by simp
    qed
    then have "inProgressOnlyAt (a - 1) ts"
      using Cons.IH[of "a - 1"] by simp
    with h show "inProgressOnlyAt a (t # ts)" by simp
  qed
qed

lemma inProgressOnlyAt_count:
  "inProgressOnlyAt a ts \<Longrightarrow>
   inProgressCount ts \<le> (if 0 \<le> a \<and> a < int (length ts) then 1 else 0)"
proof (induction ts arbitrary: a)
  case Nil
  then show ?case by (simp add: inProgressCount_def)
next
  case (Cons t ts)
  from Cons.prems have tl: "inProgressOnlyAt (a - 1) ts" by simp
  note ih = Cons.IH[OF tl]
  show ?case
  proof (cases "task_status t = InProgress")
    case True
    then have "a = 0" using Cons.prems by simp
    then show ?thesis using ih True by (simp add: inProgressCount_def)
  next
    case False
    then show ?thesis using ih by (auto simp: inProgressCount_def split: if_splits)
  qed
qed

lemma inProgressOnlyAt_le_1: "inProgressOnlyAt a ts \<Longrightarrow> inProgressCount ts \<le> 1"
  using inProgressOnlyAt_count[of a ts] by (simp split: if_splits)

lemma anchored_plan: "inProgressOnlyAt a (generateRecoveryPlan resp)"
  by (cases resp) (auto simp: inProgressOnlyAt_nth defaultPlan_def nth_Cons split: nat.splits)

lemma anchored_toggle: "anchoredState s \<Longrightarrow> anchoredState (toggleExecution s)"
  by (auto simp: anchoredState_def toggleExecution_def Let_def inProgressOnlyAt_nth
      nth_list_update)

lemma anchored_approve: "anchoredState s \<Longrightarrow> anchoredState (stateOf (handleApproveTask s))"
  by (auto simp: anchoredState_def handleApproveTask_def Let_def inProgressOnlyAt_nth
      nth_list_update split: if_splits)

lemma anchored_timer:
  "anchoredState s \<Longrightarrow> anchoredState (stateOf (timerCallback (s\<lparr>timer := False\<rparr>)))"
  by (auto simp: anchoredState_def timerCallback_def Let_def)

lemma anchored_effect: "anchoredState n \<Longrightarrow> anchoredState (executionLoopEffect p n)"
  by (auto simp: anchoredState_def executionLoopEffect_def)

lemma anchored_dispatch:
  assumes "anchoredState s" "mergeKeepsAnchor s e"
  shows "anchoredState (dispatch e s)"
proof (cases e)
  case ClickToggle
  then show ?thesis using assms(1) anchored_toggle anchored_effect by simp
next
  case ClickApprove
  then show ?thesis using assms(1) anchored_approve anchored_effect by simp
next
  case TimerFires
  then show ?thesis using assms(1) anchored_timer anchored_effect by simp
next
  case (PlannerReturns resp)
  then show ?thesis using assms(1) anchored_plan[of "- 1" resp]
    by (simp add: anchoredState_def executionLoopEffect_def handleGeneratePlan_resume_def
        Let_def)
next
  case (InterpreterReturns cur resp)
  then show ?thesis using assms
    by (cases "processVoiceCommand resp cur")
       (simp add: anchoredState_def executionLoopEffect_def recognition_onresult_resume_def
          mergeKeepsAnchor_def)
qed (use assms(1) in \<open>auto simp: anchoredState_def executionLoopEffect_def
      handleGeneratePlan_begin_def pauseForReview_def handleVoiceCommand_def
      recognition_onstart_def recognition_onend_def recognition_onerror_def
      recognition_onresult_begin_def\<close>)

lemma anchored_preserved:
  assumes "anchoredState s" "mergeKeepsAnchor s e"
  shows "anchoredState (step e s)"
  using assms by (simp add: step_def anchored_dispatch)

lemma reachableAnchored_anchored: "reachableAnchored s \<Longrightarrow> anchoredState s"
proof (induction rule: reachableAnchored.induct)
  case anchored_init
  then show ?case by (simp add: anchoredState_def initialState_def)
next
  case (anchored_step s e)
  then show ?case by (simp add: anchored_preserved)
qed

text \<open>
  C4, as stated, fails. The queue an interpreter returns is stored as it is: after the
  run \<open>doubleStartRun\<close> (a plan of two tasks is started, then a spoken command is answered
  with both tasks in progress) the state is reachable and two tasks are in progress.
\<close>

theorem merge_two_in_progress_counterexample:
  "reachable (run doubleStartRun initialState) \<and>
   inProgressCount (tasks (run doubleStartRun initialState)) = 2"
proof
  show "reachable (run doubleStartRun initialState)"
    by (rule reachable_run[OF reachable_init])
  show "inProgressCount (tasks (run doubleStartRun initialState)) = 2"
    unfolding doubleStartRun_def run_append startedRun_state
    by (simp add: handler_defs inProgressCount_def taskA_def taskB_def)
qed

text \<open>
  C4, amended. In every state reached through plan generation, start, resume, pause,
  pause for review, approval, the timeout and commands whose stored queue has no task
  in progress at an index other than the active index, at most one task is in progress.
\<close>

theorem at_most_one_in_progress_anchored:
  assumes "reachableAnchored s"
  shows "inProgressCount (tasks s) \<le> 1"
  using reachableAnchored_anchored[OF assms] inProgressOnlyAt_le_1
  by (simp add: anchoredState_def)

theorem at_most_one_in_progress_anchored_witness:
  "reachableAnchored (run appendRun initialState) \<and>
   length (tasks (run appendRun initialState)) = 3 \<and>
   inProgressCount (tasks (run appendRun initialState)) \<le> 1"
proof -
  have "allowedRun appendRun initialState"
    by (simp add: appendRun_def startedRun_def handler_defs mergeKeepsAnchor_def
        taskA_def taskB_def taskC_def)
  then have r: "reachableAnchored (run appendRun initialState)"
    by (rule reachableAnchored_run[OF anchored_init])
  have l: "length (tasks (run appendRun initialState)) = 3"
    unfolding appendRun_def run_append startedRun_state
    by (simp add: handler_defs)
  from at_most_one_in_progress_anchored[OF r] r l show ?thesis
    by simp
qed

section \<open>Approval outside the approval state\<close>

text \<open>
  C2. The commander approves through the confirm button of the approval dialog, the one
  place that calls \<open>handleApproveTask\<close>. When the status is not \<open>AWAITING_APPROVAL\<close> the
  dialog is not rendered, and an approval leaves the state as it is: the task queue,
  with every status in it, and the active index are unchanged.
\<close>

theorem approve_outside_approval_is_noop:
  assumes "status s \<noteq> AWAITING_APPROVAL"
  shows "\<not> approvalDialogShown s \<and>
         step ClickApprove s = s \<and>
         tasks (step ClickApprove s) = tasks s \<and>
         activeTaskIndex (step ClickApprove s) = activeTaskIndex s"
  using assms
  by (simp add: step_def approvalDialogShown_def approvalDialogCondition_def)

theorem approve_outside_approval_is_noop_witness:
  "reachable (run startedRun initialState) \<and>
   status (run startedRun initialState) = EXECUTING \<and>
   step ClickApprove (run startedRun initialState) = run startedRun initialState \<and>
   map task_status (tasks (step ClickApprove (run startedRun initialState)))
     = [InProgress, Pending] \<and>
   activeTaskIndex (step ClickApprove (run startedRun initialState)) = 0"
proof -
  have r: "reachable (run startedRun initialState)"
    by (rule reachable_run[OF reachable_init])
  have e: "status (run startedRun initialState) = EXECUTING"
    and t: "map task_status (tasks (run startedRun initialState)) = [InProgress, Pending]"
    and a: "activeTaskIndex (run startedRun initialState) = 0"
    unfolding startedRun_state by (simp_all add: taskA_def taskB_def)
  from e have n: "status (run startedRun initialState) \<noteq> AWAITING_APPROVAL"
    by simp
  from approve_outside_approval_is_noop[OF n] r e t a show ?thesis
    by simp
qed

section \<open>Storing the queue a command returns\<close>

lemma secondActiveRun_state:
  "tasks (run secondActiveRun initialState) =
     [taskA\<lparr>task_status := Completed\<rparr>, taskB\<lparr>task_status := InProgress\<rparr>]"
  "status (run secondActiveRun initialState) = EXECUTING"
  "activeTaskIndex (run secondActiveRun initialState) = 1"
  "timer (run secondActiveRun initialState)"
  unfolding secondActiveRun_def run_append startedRun_state
  by (simp_all add: handler_defs taskA_def taskB_def)

lemma secondAwaitingRun_state:
  "tasks (run secondAwaitingRun initialState) =
     [taskA\<lparr>task_status := Completed\<rparr>, taskB\<lparr>task_status := InProgress\<rparr>]"
  "status (run secondAwaitingRun initialState) = AWAITING_APPROVAL"
  "activeTaskIndex (run secondAwaitingRun initialState) = 1"
  unfolding secondAwaitingRun_def run_append[of secondActiveRun]
  using secondActiveRun_state
  by (simp_all add: step_def renderThrows_def approvalDialogCondition_def timerCallback_def
      executionLoopEffect_def timerCondition_def)

text \<open>
  C3, as stated, fails. Nothing clamps the active index: after \<open>shrinkRun\<close> (the second
  of two tasks is in progress and a command removes it) the queue has one task and the
  active index is still 1, which is not an index of the queue.
\<close>

theorem merge_leaves_activeIndex_counterexample:
  "reachable (run shrinkRun initialState) \<and>
   length (tasks (run shrinkRun initialState)) = 1 \<and>
   activeTaskIndex (run shrinkRun initialState) = 1 \<and>
   \<not> activeTaskIndex (run shrinkRun initialState)
       < int (length (tasks (run shrinkRun initialState)))"
proof -
  have r: "reachable (run shrinkRun initialState)"
    by (rule reachable_run[OF reachable_init])
  have t: "tasks (run shrinkRun initialState) = [taskA\<lparr>task_status := Completed\<rparr>]"
    and a: "activeTaskIndex (run shrinkRun initialState) = 1"
    unfolding shrinkRun_def run_append startedRun_state
    by (simp_all add: handler_defs taskA_def taskB_def)
  show ?thesis using r by (simp add: t a)
qed

text \<open>
  C3, amended. When the interpreter returns a queue, the handler stores that queue as
  it is and touches neither the active index nor the status; the active index is not
  clamped and not reconciled with the new queue in any way. If the status is
  \<open>AWAITING_APPROVAL\<close> and the active index is not an index of the new queue, the render
  of the approval dialog throws and the component is unmounted, after which nothing
  changes any more. In every other case the component goes on with the new queue, the
  old active index, in range or not, and the old status.
\<close>

theorem merge_replaces_queue_keeps_index:
  assumes "\<not> renderThrows s"
  shows
    "(\<not> (status s = AWAITING_APPROVAL \<and> activeTaskIndex s \<noteq> - 1 \<and>
          int (length ts) \<le> activeTaskIndex s) \<longrightarrow>
        tasks (step (InterpreterReturns cur (InterpreterJson (Some ts) r)) s) = ts \<and>
        activeTaskIndex (step (InterpreterReturns cur (InterpreterJson (Some ts) r)) s)
          = activeTaskIndex s \<and>
        status (step (InterpreterReturns cur (InterpreterJson (Some ts) r)) s) = status s \<and>
        \<not> renderThrows (step (InterpreterReturns cur (InterpreterJson (Some ts) r)) s)) \<and>
     (status s = AWAITING_APPROVAL \<and> activeTaskIndex s \<noteq> - 1 \<and>
        int (length ts) \<le> activeTaskIndex s \<longrightarrow>
        renderThrows (step (InterpreterReturns cur (InterpreterJson (Some ts) r)) s) \<and>
        step e (step (InterpreterReturns cur (InterpreterJson (Some ts) r)) s)
          = step (InterpreterReturns cur (InterpreterJson (Some ts) r)) s)"
proof -
  let ?s' = "step (InterpreterReturns cur (InterpreterJson (Some ts) r)) s"
  have c: "tasks ?s' = ts" "activeTaskIndex ?s' = activeTaskIndex s" "status ?s' = status s"
    using assms
    by (simp_all add: step_def recognition_onresult_resume_def executionLoopEffect_def)
  have "renderThrows ?s' \<longleftrightarrow>
      status s = AWAITING_APPROVAL \<and> activeTaskIndex s \<noteq> - 1 \<and>
      int (length ts) \<le> activeTaskIndex s"
    using assms c by (auto simp: renderThrows_def approvalDialogCondition_def)
  then show ?thesis
    using c by (auto simp: step_def)
qed

theorem merge_replaces_queue_keeps_index_witness:
  "status (run secondActiveRun initialState) = EXECUTING \<and>
   tasks (step (InterpreterReturns [] (InterpreterJson (Some [taskC]) None))
            (run secondActiveRun initialState)) = [taskC] \<and>
   activeTaskIndex (step (InterpreterReturns [] (InterpreterJson (Some [taskC]) None))
            (run secondActiveRun initialState)) = 1 \<and>
   status (run secondAwaitingRun initialState) = AWAITING_APPROVAL \<and>
   activeTaskIndex (run secondAwaitingRun initialState) = 1 \<and>
   renderThrows (step (InterpreterReturns [] (InterpreterJson (Some [taskC]) None))
            (run secondAwaitingRun initialState)) \<and>
   step ClickApprove (step (InterpreterReturns [] (InterpreterJson (Some [taskC]) None))
            (run secondAwaitingRun initialState))
     = step (InterpreterReturns [] (InterpreterJson (Some [taskC]) None))
            (run secondAwaitingRun initialState)"
proof -
  note a = secondActiveRun_state
  note b = secondAwaitingRun_state
  have ma: "\<not> renderThrows (run secondActiveRun initialState)"
    and mb: "\<not> renderThrows (run secondAwaitingRun initialState)"
    by (simp_all add: renderThrows_def approvalDialogCondition_def a b)
  have na: "\<not> (status (run secondActiveRun initialState) = AWAITING_APPROVAL \<and>
      activeTaskIndex (run secondActiveRun initialState) \<noteq> - 1 \<and>
      int (length [taskC]) \<le> activeTaskIndex (run secondActiveRun initialState))"
    by (simp add: a)
  have cb: "status (run secondAwaitingRun initialState) = AWAITING_APPROVAL \<and>
      activeTaskIndex (run secondAwaitingRun initialState) \<noteq> - 1 \<and>
      int (length [taskC]) \<le> activeTaskIndex (run secondAwaitingRun initialState)"
    by (simp add: b)
  from merge_replaces_queue_keeps_index[OF ma, of "[taskC]" "[]" None] na
  have 1: "tasks (step (InterpreterReturns [] (InterpreterJson (Some [taskC]) None))
            (run secondActiveRun initialState)) = [taskC]"
    "activeTaskIndex (step (InterpreterReturns [] (InterpreterJson (Some [taskC]) None))
            (run secondActiveRun initialState)) = 1"
    using a(3) by auto
  from merge_replaces_queue_keeps_index[OF mb, of "[taskC]" "[]" None ClickApprove] cb
  have 2: "renderThrows (step (InterpreterReturns [] (InterpreterJson (Some [taskC]) None))
            (run secondAwaitingRun initialState))"
    "step ClickApprove (step (InterpreterReturns [] (InterpreterJson (Some [taskC]) None))
            (run secondAwaitingRun initialState))
     = step (InterpreterReturns [] (InterpreterJson (Some [taskC]) None))
            (run secondAwaitingRun initialState)"
    by blast+
  from a(2) 1 b(2) b(3) 2 show ?thesis
    by blast
qed

section \<open>Failure of the planner\<close>

text \<open>
  C7, as stated, fails. The failure is written to the console and not to the log: after
  \<open>failedPlanRun\<close> the log holds three entries, all tagged \<^verbatim>\<open>[AI]\<close>, and no entry
  contains \<^verbatim>\<open>[SYSTEM]\<close>.
\<close>

theorem planner_failure_logs_no_system_entry_counterexample:
  "logs (run failedPlanRun initialState) =
     [ ''[AI] Analyzing impact for Flood in Coastal District A...'',
       ''[AI] Generating resource allocation strategy...'',
       ''[AI] Plan generated with 3 operational phases.'' ] \<and>
   filter (\<lambda>l. str_includes l ''[SYSTEM]'') (logs (run failedPlanRun initialState)) = []"
proof -
  have l: "logs (run failedPlanRun initialState) =
     [ ''[AI] Analyzing impact for Flood in Coastal District A...'',
       ''[AI] Generating resource allocation strategy...'',
       ''[AI] Plan generated with 3 operational phases.'' ]"
    by (simp add: failedPlanRun_def handler_defs showNat_small)
  show ?thesis unfolding l by simp
qed

text \<open>
  C7, amended. If the planner fails during plan generation, the queue becomes the fixed
  default of three pending tasks, the active index is \<open>-1\<close>, the status is \<open>IDLE\<close> again,
  and the log grows by three \<^verbatim>\<open>[AI]\<close> entries, the last of which reports a plan of 3
  phases; the failure reaches the caller as an ordinary plan.
\<close>

theorem planner_failure_fallback:
  assumes "status s = IDLE \<or> status s = COMPLETED"
  shows "generateRecoveryPlan PlannerThrew = defaultPlan \<and>
     tasks (run failedPlanRun s) = defaultPlan \<and>
     map task_status (tasks (run failedPlanRun s)) = [Pending, Pending, Pending] \<and>
     activeTaskIndex (run failedPlanRun s) = - 1 \<and>
     status (run failedPlanRun s) = IDLE \<and>
     logs (run failedPlanRun s) = logs s @
       [ ''[AI] Analyzing impact for '' @ disasterLabel (simType s) @ '' in '' @
           simLocation s @ ''...'',
         ''[AI] Generating resource allocation strategy...'',
         ''[AI] Plan generated with 3 operational phases.'' ]"
  using assms
  by (auto simp: failedPlanRun_def handler_defs showNat_small)

theorem planner_failure_fallback_witness:
  "status initialState = IDLE \<and>
   tasks (run failedPlanRun initialState) = defaultPlan \<and>
   map task_status (tasks (run failedPlanRun initialState)) = [Pending, Pending, Pending] \<and>
   activeTaskIndex (run failedPlanRun initialState) = - 1 \<and>
   status (run failedPlanRun initialState) = IDLE"
proof -
  have i: "status initialState = IDLE"
    by (simp add: initialState_def)
  then have "status initialState = IDLE \<or> status initialState = COMPLETED"
    by blast
  from planner_failure_fallback[OF this] i show ?thesis
    by blast
qed

section \<open>Identities in the browser\<close>

lemma putArray_keeps:
  "ui (putArray st w) = ui w" "timeoutId (putArray st w) = timeoutId w"
  "recognitions (putArray st w) = recognitions w" "calls (putArray st w) = calls w"
  "fresh w \<le> fresh (putArray st w)"
  by (cases st; simp)+

lemma track_keeps:
  "ui (track oc w) = ui w" "timeoutId (track oc w) = timeoutId w"
  "fresh (track oc w) = fresh w" "tasksArray (track oc w) = tasksArray w"
  "tasksObjects (track oc w) = tasksObjects w" "shelf (track oc w) = shelf w"
  by (cases oc; simp)+

lemma reschedule_keeps:
  "ui (reschedule w w') = ui w'" "fresh w' \<le> fresh (reschedule w w')"
  "tasksArray (reschedule w w') = tasksArray w'"
  "tasksObjects (reschedule w w') = tasksObjects w'"
  "recognitions (reschedule w w') = recognitions w'" "calls (reschedule w w') = calls w'"
  by (simp_all add: reschedule_def)

lemma ui_wstep:
  "ui (wstep oc w) =
     (if renderThrows (ui w) then ui w
      else case handlerOf w oc of None \<Rightarrow> ui w | Some e \<Rightarrow> step e (ui w))"
  by (simp add: wstep_def reschedule_keeps split: option.splits)

lemma ui_wstep_cases:
  obtains "ui (wstep oc w) = ui w" | e where "ui (wstep oc w) = step e (ui w)"
proof (cases "renderThrows (ui w)")
  case True
  then have "ui (wstep oc w) = ui w" by (simp add: ui_wstep)
  then show ?thesis by (rule that(1))
next
  case False
  show ?thesis
  proof (cases "handlerOf w oc")
    case None
    with False have "ui (wstep oc w) = ui w" by (simp add: ui_wstep)
    then show ?thesis by (rule that(1))
  next
    case (Some e)
    with False have "ui (wstep oc w) = step e (ui w)" by (simp add: ui_wstep)
    then show ?thesis by (rule that(2))
  qed
qed

lemma wreachable_ui: "wreachable w \<Longrightarrow> reachable (ui w)"
proof (induction rule: wreachable.induct)
  case wreachable_init
  then show ?case by (simp add: initialWorld_def reachable_init)
next
  case (wreachable_step w oc)
  then show ?case
    by (cases rule: ui_wstep_cases[of oc w]) (auto intro: reachable_step)
qed

lemma fresh_wstep: "fresh w \<le> fresh (wstep oc w)"
proof -
  have "fresh w \<le> fresh (reschedule w ((track oc (putArray st w))\<lparr>ui := s\<rparr>))" for st s
    using reschedule_keeps(2)[of "(track oc (putArray st w))\<lparr>ui := s\<rparr>" w]
      putArray_keeps(5)[of w st]
    by (simp add: track_keeps)
  then show ?thesis
    by (simp add: wstep_def split: option.splits)
qed

text \<open>A timeout is not set without the effect running again.\<close>

lemma timer_not_new_dispatch:
  assumes "timer (dispatch e s)"
    and "status (dispatch e s) = status s"
    and "activeTaskIndex (dispatch e s) = activeTaskIndex s"
    and "tasks (dispatch e s) = tasks s"
  shows "timer s"
proof (cases e)
  case (InterpreterReturns cur resp)
  show ?thesis
    using assms unfolding InterpreterReturns
    by (cases "processVoiceCommand resp cur")
       (auto simp: executionLoopEffect_def recognition_onresult_resume_def split: if_splits)
next
  case ClickApprove
  show ?thesis
    using assms unfolding ClickApprove
    by (auto simp: executionLoopEffect_def handleApproveTask_def Let_def split: if_splits)
next
  case ClickToggle
  show ?thesis
    using assms unfolding ClickToggle
    by (auto simp: executionLoopEffect_def toggleExecution_def Let_def split: if_splits)
next
  case TimerFires
  show ?thesis
    using assms unfolding TimerFires
    by (auto simp: executionLoopEffect_def timerCallback_def Let_def split: if_splits)
qed (use assms in \<open>auto simp: executionLoopEffect_def handleGeneratePlan_begin_def
      handleGeneratePlan_resume_def pauseForReview_def handleVoiceCommand_def
      recognition_onstart_def recognition_onend_def recognition_onerror_def
      recognition_onresult_begin_def Let_def split: if_splits\<close>)

lemma timer_not_new:
  assumes "timer (step e s)"
    and "status (step e s) = status s"
    and "activeTaskIndex (step e s) = activeTaskIndex s"
    and "tasks (step e s) = tasks s"
  shows "timer s"
  using assms timer_not_new_dispatch[of e s] by (auto simp: step_def split: if_splits)

lemma cleared_wstep:
  assumes "cleared k w"
  shows "cleared k (wstep oc w)"
proof (cases "renderThrows (ui w) \<or> handlerOf w oc = None")
  case True
  then show ?thesis using assms by (auto simp: wstep_def)
next
  case False
  then obtain e where e: "handlerOf w oc = Some e" and m: "\<not> renderThrows (ui w)"
    by auto
  define w' where "w' = (track oc (putArray (storedArray w oc) w))\<lparr>ui := step e (ui w)\<rparr>"
  have ws: "wstep oc w = reschedule w w'"
    using e m by (simp add: wstep_def w'_def)
  have f: "fresh w \<le> fresh w'" and t: "timeoutId w' = timeoutId w"
    and u: "ui w' = step e (ui w)"
    using putArray_keeps(5)[of w "storedArray w oc"]
    by (simp_all add: w'_def track_keeps putArray_keeps)
  have k: "k < fresh w" and np: "\<not> (timer (ui w) \<and> timeoutId w = k)"
    using assms by (simp_all add: cleared_def)
  show ?thesis
  proof (cases "timer (ui w') \<and>
         (status (ui w') \<noteq> status (ui w) \<or>
          activeTaskIndex (ui w') \<noteq> activeTaskIndex (ui w) \<or>
          tasksArray w' \<noteq> tasksArray w \<or> tasks (ui w') \<noteq> tasks (ui w))")
    case True
    then have "wstep oc w = w'\<lparr>timeoutId := fresh w', fresh := fresh w' + 1\<rparr>"
      by (simp add: ws reschedule_def)
    then show ?thesis using k f by (simp add: cleared_def)
  next
    case False
    then have same: "wstep oc w = w'"
      unfolding ws reschedule_def by (simp only: if_False)
    have "\<not> (timer (ui w') \<and> timeoutId w' = k)"
    proof
      assume p: "timer (ui w') \<and> timeoutId w' = k"
      with False have "status (ui w') = status (ui w)"
        "activeTaskIndex (ui w') = activeTaskIndex (ui w)" "tasks (ui w') = tasks (ui w)"
        by auto
      with p have "timer (ui w)"
        unfolding u by (auto intro: timer_not_new)
      with p t np show False by simp
    qed
    then show ?thesis using k f by (simp add: same cleared_def)
  qed
qed

lemma cleared_wrun: "cleared k w \<Longrightarrow> cleared k (wrun ocs w)"
  by (induction ocs arbitrary: w) (simp_all add: cleared_wstep)

lemma cleared_noop: "cleared k w \<Longrightarrow> wstep (TimeoutElapsed k) w = w"
  by (auto simp: wstep_def cleared_def)

lemma timeout_below_fresh: "wreachable w \<Longrightarrow> timeoutId w < fresh w"
proof (induction rule: wreachable.induct)
  case wreachable_init
  then show ?case by (simp add: initialWorld_def)
next
  case (wreachable_step w oc)
  show ?case
  proof (cases "renderThrows (ui w) \<or> handlerOf w oc = None")
    case True
    then show ?thesis using wreachable_step.IH by (auto simp: wstep_def)
  next
    case False
    then obtain e where e: "handlerOf w oc = Some e" and m: "\<not> renderThrows (ui w)"
      by auto
    define w' where "w' = (track oc (putArray (storedArray w oc) w))\<lparr>ui := step e (ui w)\<rparr>"
    have ws: "wstep oc w = reschedule w w'"
      using e m by (simp add: wstep_def w'_def)
    have "fresh w \<le> fresh w'" "timeoutId w' = timeoutId w"
      using putArray_keeps(5)[of w "storedArray w oc"]
      by (simp_all add: w'_def track_keeps putArray_keeps)
    then show ?thesis
      using wreachable_step.IH by (simp add: ws reschedule_def)
  qed
qed

lemma effect_ran_clears:
  assumes "k < fresh w"
    and "status (ui (wstep oc w)) \<noteq> status (ui w) \<or>
         activeTaskIndex (ui (wstep oc w)) \<noteq> activeTaskIndex (ui w) \<or>
         tasksArray (wstep oc w) \<noteq> tasksArray w"
  shows "cleared k (wstep oc w)"
proof (cases "renderThrows (ui w) \<or> handlerOf w oc = None")
  case True
  then have "wstep oc w = w" by (auto simp: wstep_def)
  with assms(2) show ?thesis by simp
next
  case False
  then obtain e where e: "handlerOf w oc = Some e" and m: "\<not> renderThrows (ui w)"
    by auto
  define w' where "w' = (track oc (putArray (storedArray w oc) w))\<lparr>ui := step e (ui w)\<rparr>"
  have ws: "wstep oc w = reschedule w w'"
    using e m by (simp add: wstep_def w'_def)
  have f: "fresh w \<le> fresh w'"
    using putArray_keeps(5)[of w "storedArray w oc"]
    by (simp add: w'_def track_keeps)
  have ch: "status (ui w') \<noteq> status (ui w) \<or>
         activeTaskIndex (ui w') \<noteq> activeTaskIndex (ui w) \<or>
         tasksArray w' \<noteq> tasksArray w"
    using assms(2) by (simp add: ws reschedule_keeps)
  show ?thesis
  proof (cases "timer (ui w')")
    case True
    with ch have "wstep oc w = w'\<lparr>timeoutId := fresh w', fresh := fresh w' + 1\<rparr>"
      by (auto simp: ws reschedule_def)
    then show ?thesis using assms(1) f by (simp add: cleared_def)
  next
    case False
    then have "wstep oc w = w'"
      by (simp add: ws reschedule_def)
    then show ?thesis using False assms(1) f by (simp add: cleared_def)
  qed
qed

text \<open>
  C8. Let timeout \<open>k\<close> be pending in a reachable world; it was then set while the status
  was \<open>EXECUTING\<close>. If what happens next leaves \<open>EXECUTING\<close> (a pause, the dialog), puts
  another array into the \<open>tasks\<close> cell (a command that changes the queue, a new plan) or
  changes the active index, then the elapsed event of \<open>k\<close> changes nothing, neither
  status nor queue nor active index, right away and after whatever else happens in
  between, a resume included.
\<close>

theorem stale_timer_is_noop:
  assumes "wreachable w"
    and "timer (ui w)" and "timeoutId w = k"
    and "status (ui (wstep oc w)) \<noteq> EXECUTING \<or>
         tasksArray (wstep oc w) \<noteq> tasksArray w \<or>
         activeTaskIndex (ui (wstep oc w)) \<noteq> activeTaskIndex (ui w)"
  shows "status (ui w) = EXECUTING \<and>
         wstep (TimeoutElapsed k) (wrun ocs (wstep oc w)) = wrun ocs (wstep oc w)"
proof -
  have ex: "status (ui w) = EXECUTING"
    using reachable_wellFormed[OF wreachable_ui[OF assms(1)]] assms(2)
    by (simp add: wellFormed_def timerCondition_def)
  have "k < fresh w"
    using timeout_below_fresh[OF assms(1)] assms(3) by simp
  moreover have "status (ui (wstep oc w)) \<noteq> status (ui w) \<or>
         activeTaskIndex (ui (wstep oc w)) \<noteq> activeTaskIndex (ui w) \<or>
         tasksArray (wstep oc w) \<noteq> tasksArray w"
    using assms(4) ex by auto
  ultimately have "cleared k (wstep oc w)"
    by (rule effect_ran_clears)
  then have "cleared k (wrun ocs (wstep oc w))"
    by (rule cleared_wrun)
  then show ?thesis
    using ex by (simp add: cleared_noop)
qed

section \<open>Runs in the browser\<close>

lemmas world_defs = wstep_def reschedule_def heldTasks_def initialWorld_def

lemma wrun_append: "wrun (xs @ ys) w = wrun ys (wrun xs w)"
  by (induction xs arbitrary: w) simp_all

lemma wreachable_wrun: "wreachable w \<Longrightarrow> wreachable (wrun ocs w)"
  by (induction ocs arbitrary: w) (auto intro: wreachable_step)

lemma startedOccurrences_world:
  "ui (wrun startedOccurrences initialWorld) = run startedRun initialState"
  "tasksArray (wrun startedOccurrences initialWorld) = 2"
  "tasksObjects (wrun startedOccurrences initialWorld) = 1"
  "timeoutId (wrun startedOccurrences initialWorld) = 3"
  "fresh (wrun startedOccurrences initialWorld) = 4"
  "recognitions (wrun startedOccurrences initialWorld) = []"
  "calls (wrun startedOccurrences initialWorld) = []"
  unfolding startedRun_state
  by (simp_all add: startedOccurrences_def world_defs handler_defs taskA_def taskB_def
      showNat_small)

lemma commandOutRun_world:
  "ui (wrun commandOutRun initialWorld) =
     (run startedRun initialState)
       \<lparr> logs := logs (run startedRun initialState) @
           [ ''[COMMS] Listening for voice command...'',
             ''[USER VOICE] '' @ [CHR 0x22] @ ''report status'' @ [CHR 0x22],
             ''[AI] Analyzing intent...'' ],
         isProcessingVoice := True \<rparr>"
  "tasksArray (wrun commandOutRun initialWorld) = 2"
  "tasksObjects (wrun commandOutRun initialWorld) = 1"
  "timeoutId (wrun commandOutRun initialWorld) = 3"
  "fresh (wrun commandOutRun initialWorld) = 4"
  "calls (wrun commandOutRun initialWorld) = [(2, 1)]"
  unfolding commandOutRun_def wrun_append startedRun_state
  by (simp_all add: wstep_def reschedule_def heldTasks_def
      startedOccurrences_world[unfolded startedRun_state] handler_defs)

text \<open>
  C8, on two runs. The plan of two tasks is started and timeout 3 is pending. In the
  first run the commander pauses and resumes: the status is \<open>EXECUTING\<close> again and another
  timeout is pending. In the second run a command is answered, while the status stays
  \<open>EXECUTING\<close>, with a queue equal to the one in place: another array is in the cell and
  another timeout is pending. In both, the elapsed event of timeout 3 changes nothing.
\<close>

theorem stale_timer_is_noop_witness:
  "wreachable (wrun startedOccurrences initialWorld) \<and>
   timer (ui (wrun startedOccurrences initialWorld)) \<and>
   timeoutId (wrun startedOccurrences initialWorld) = 3 \<and>
   status (ui (wstep ToggleClick (wrun startedOccurrences initialWorld))) = PAUSED \<and>
   status (ui (wrun [ToggleClick] (wstep ToggleClick (wrun startedOccurrences initialWorld))))
     = EXECUTING \<and>
   timer (ui (wrun [ToggleClick] (wstep ToggleClick (wrun startedOccurrences initialWorld)))) \<and>
   wstep (TimeoutElapsed 3)
     (wrun [ToggleClick] (wstep ToggleClick (wrun startedOccurrences initialWorld)))
     = wrun [ToggleClick] (wstep ToggleClick (wrun startedOccurrences initialWorld)) \<and>
   wreachable (wrun commandOutRun initialWorld) \<and>
   timer (ui (wrun commandOutRun initialWorld)) \<and>
   timeoutId (wrun commandOutRun initialWorld) = 3 \<and>
   status (ui (wstep (InterpreterAnswer 0 (InterpreterJson
      (Some [taskA\<lparr>task_status := InProgress\<rparr>, taskB]) None))
      (wrun commandOutRun initialWorld))) = EXECUTING \<and>
   tasks (ui (wstep (InterpreterAnswer 0 (InterpreterJson
      (Some [taskA\<lparr>task_status := InProgress\<rparr>, taskB]) None))
      (wrun commandOutRun initialWorld))) = tasks (ui (wrun commandOutRun initialWorld)) \<and>
   tasksArray (wstep (InterpreterAnswer 0 (InterpreterJson
      (Some [taskA\<lparr>task_status := InProgress\<rparr>, taskB]) None))
      (wrun commandOutRun initialWorld)) = 4 \<and>
   timer (ui (wstep (InterpreterAnswer 0 (InterpreterJson
      (Some [taskA\<lparr>task_status := InProgress\<rparr>, taskB]) None))
      (wrun commandOutRun initialWorld))) \<and>
   wstep (TimeoutElapsed 3) (wstep (InterpreterAnswer 0 (InterpreterJson
      (Some [taskA\<lparr>task_status := InProgress\<rparr>, taskB]) None))
      (wrun commandOutRun initialWorld))
     = wstep (InterpreterAnswer 0 (InterpreterJson
      (Some [taskA\<lparr>task_status := InProgress\<rparr>, taskB]) None))
      (wrun commandOutRun initialWorld)"
proof -
  let ?w = "wrun startedOccurrences initialWorld"
  note s = startedOccurrences_world
  have r: "wreachable ?w"
    by (rule wreachable_wrun[OF wreachable_init])
  have t: "timer (ui ?w)"
    unfolding s(1) startedRun_state by simp
  have p: "status (ui (wstep ToggleClick ?w)) = PAUSED"
    unfolding ui_wstep s(1) startedRun_state by (simp add: handler_defs)
  then have h: "status (ui (wstep ToggleClick ?w)) \<noteq> EXECUTING \<or>
      tasksArray (wstep ToggleClick ?w) \<noteq> tasksArray ?w \<or>
      activeTaskIndex (ui (wstep ToggleClick ?w)) \<noteq> activeTaskIndex (ui ?w)"
    by simp
  have q: "status (ui (wrun [ToggleClick] (wstep ToggleClick ?w))) = EXECUTING"
    "timer (ui (wrun [ToggleClick] (wstep ToggleClick ?w)))"
    unfolding wrun.simps ui_wstep s(1) startedRun_state by (simp_all add: handler_defs)
  note first = stale_timer_is_noop[OF r t s(4) h, of "[ToggleClick]"]
  let ?v = "wrun commandOutRun initialWorld"
  let ?a = "InterpreterAnswer 0 (InterpreterJson
      (Some [taskA\<lparr>task_status := InProgress\<rparr>, taskB]) None)"
  note c = commandOutRun_world
  have r': "wreachable ?v"
    by (rule wreachable_wrun[OF wreachable_init])
  have t': "timer (ui ?v)"
    unfolding c(1) startedRun_state by simp
  have e': "status (ui (wstep ?a ?v)) = EXECUTING"
    and k': "tasks (ui (wstep ?a ?v)) = tasks (ui ?v)"
    and n': "timer (ui (wstep ?a ?v))"
    unfolding ui_wstep c(1) startedRun_state
    by (simp_all add: c(6) handler_defs)
  have m': "\<not> renderThrows (ui ?v)"
    unfolding c(1) startedRun_state
    by (simp add: renderThrows_def approvalDialogCondition_def)
  have a': "tasksArray (wstep ?a ?v) = 4"
    using m' by (simp add: wstep_def reschedule_keeps track_keeps c(5) c(6))
  then have h': "status (ui (wstep ?a ?v)) \<noteq> EXECUTING \<or>
      tasksArray (wstep ?a ?v) \<noteq> tasksArray ?v \<or>
      activeTaskIndex (ui (wstep ?a ?v)) \<noteq> activeTaskIndex (ui ?v)"
    by (simp add: c(2))
  note second = stale_timer_is_noop[OF r' t' c(4) h', of "[]"]
  have f: "wstep (TimeoutElapsed 3) (wrun [ToggleClick] (wstep ToggleClick ?w))
      = wrun [ToggleClick] (wstep ToggleClick ?w)"
    using first by (rule conjunct2)
  have "wstep (TimeoutElapsed 3) (wrun [] (wstep ?a ?v)) = wrun [] (wstep ?a ?v)"
    using second by (rule conjunct2)
  then have g: "wstep (TimeoutElapsed 3) (wstep ?a ?v) = wstep ?a ?v"
    by (simp only: wrun.simps)
  show ?thesis
    by (intro conjI) (fact r t s(4) p q f r' t' c(4) e' k' a' n' g)+
qed

section \<open>One command at a time\<close>

text \<open>
  While \<open>isListening\<close> or \<open>isProcessingVoice\<close> is set, the voice control is disabled, and
  a click on it starts no recognition and changes nothing.
\<close>

lemma voice_click_while_flagged:
  assumes "isListening (ui w) \<or> isProcessingVoice (ui w)"
  shows "wstep (VoiceClick supported) w = w"
  using assms
  by (simp add: wstep_def step_def voiceDisabled_def reschedule_def)

text \<open>
  C5, on the run in which the voice control is clicked twice before the first
  recognition has reported its start. No flag is set by a click, so after the first
  click the control is still enabled although a command is outstanding; the second click
  is not rejected and creates a second recognition object. When both deliver their
  result, two calls of the interpreter are out at the same time, and both answers are
  stored, the second over the first.
\<close>

theorem second_voice_click_starts_second_command:
  "length (recognitions (wrun [VoiceClick True] initialWorld)) = 1 \<and>
   \<not> voiceDisabled (ui (wrun [VoiceClick True] initialWorld)) \<and>
   length (recognitions (wrun [VoiceClick True, VoiceClick True] initialWorld)) = 2 \<and>
   length (calls (wrun doubleClickRun initialWorld)) = 2 \<and>
   tasks (ui (wrun (doubleClickRun @
      [InterpreterAnswer 0 (InterpreterJson (Some [taskA]) None)]) initialWorld)) = [taskA] \<and>
   length (calls (wrun (doubleClickRun @
      [InterpreterAnswer 0 (InterpreterJson (Some [taskA]) None)]) initialWorld)) = 1 \<and>
   tasks (ui (wrun (doubleClickRun @
      [InterpreterAnswer 0 (InterpreterJson (Some [taskA]) None),
       InterpreterAnswer 0 (InterpreterJson (Some [taskB]) None)]) initialWorld)) = [taskB]"
  by (simp add: doubleClickRun_def world_defs handler_defs)

section \<open>Failure of the interpreter\<close>





end
